theory Spec2Isabelle
  imports Main "HOL-Library.Multiset" "HOL-Library.Char_ord" "HOL-Library.List_Lexorder"
begin

section \<open>Data model (frontend/src/types/index.ts)\<close>

text \<open>
  The API types of the frontend. JavaScript numbers that hold identifiers, versions and
  array indices are integers here; \<open>string | null\<close> is \<open>string option\<close>. A field called
  \<open>id\<close> is written \<open>id_c\<close>, \<open>id_l\<close>, \<open>id_b\<close> (card, list, board), and the fields of
  \<open>List\<close> and \<open>Board\<close> whose names repeat a field of \<open>Card\<close> carry the same suffix.
  Strings are compared with the lexicographic order on character lists, which is what
  JavaScript's \<open><\<close> on strings computes for the rank alphabet.
\<close>

record Card =
  id_c :: int
  title :: string
  description :: "string option"
  position :: string
  list_id :: int
  version :: int
  created_at :: string

record List =
  id_l :: int
  name :: string
  position_l :: string
  board_id :: int
  cards :: "Card list"

record Board =
  id_b :: int
  name_b :: string
  description_b :: "string option"
  owner_id :: int
  created_at_b :: string
  updated_at :: string
  lists :: "List list"

text \<open>\<open>Partial<Card>\<close>: every field may be absent.\<close>

record PartialCard =
  id_p :: "int option"
  title_p :: "string option"
  description_p :: "string option option"
  position_p :: "string option"
  list_id_p :: "int option"
  version_p :: "int option"
  created_at_p :: "string option"


section \<open>JavaScript array operations used by the store\<close>

text \<open>\<open>Array.prototype.findIndex\<close>: the first index whose element satisfies the
  predicate, \<open>-1\<close> when there is none.\<close>

fun findIndex :: "('a \<Rightarrow> bool) \<Rightarrow> 'a list \<Rightarrow> int" where
  "findIndex P [] = - 1"
| "findIndex P (x # xs) =
     (if P x then 0 else (let r = findIndex P xs in if r = - 1 then - 1 else r + 1))"

text \<open>\<open>xs[i]\<close> for an integer index: \<open>undefined\<close> (here \<open>None\<close>) out of range.\<close>

definition at_index :: "'a list \<Rightarrow> int \<Rightarrow> 'a option" where
  "at_index xs i = (if 0 \<le> i \<and> i < int (length xs) then Some (xs ! nat i) else None)"

text \<open>\<open>xs.splice(start, 0, x)\<close>: a negative start counts from the end, and the start
  is clamped to the array.\<close>

definition splice_insert :: "'a list \<Rightarrow> int \<Rightarrow> 'a \<Rightarrow> 'a list" where
  "splice_insert xs start x =
     (let n = int (length xs);
          k = (if start < 0 then max (n + start) 0 else min start n)
      in take (nat k) xs @ x # drop (nat k) xs)"

text \<open>\<open>xs.splice(i, 1)\<close> for an index \<open>i\<close> that \<open>findIndex\<close> returned.\<close>

definition splice_remove :: "'a list \<Rightarrow> int \<Rightarrow> 'a list" where
  "splice_remove xs i = take (nat i) xs @ drop (nat i + 1) xs"

text \<open>\<open>lists.find(p)\<close> returns a reference into the array, and the store then mutates
  the object found. \<open>update_first\<close> is that mutation: the first element satisfying the
  predicate is replaced, every other element is kept.\<close>

fun update_first :: "('a \<Rightarrow> bool) \<Rightarrow> ('a \<Rightarrow> 'a) \<Rightarrow> 'a list \<Rightarrow> 'a list" where
  "update_first P f [] = []"
| "update_first P f (x # xs) = (if P x then f x # xs else x # update_first P f xs)"

text \<open>The object spread \<open>{ ...card, ...updates }\<close>.\<close>

definition spread :: "Card \<Rightarrow> PartialCard \<Rightarrow> Card" where
  "spread c updates =
     \<lparr> id_c = (case id_p updates of None \<Rightarrow> id_c c | Some v \<Rightarrow> v),
       title = (case title_p updates of None \<Rightarrow> title c | Some v \<Rightarrow> v),
       description = (case description_p updates of None \<Rightarrow> description c | Some v \<Rightarrow> v),
       position = (case position_p updates of None \<Rightarrow> position c | Some v \<Rightarrow> v),
       list_id = (case list_id_p updates of None \<Rightarrow> list_id c | Some v \<Rightarrow> v),
       version = (case version_p updates of None \<Rightarrow> version c | Some v \<Rightarrow> v),
       created_at = (case created_at_p updates of None \<Rightarrow> created_at c | Some v \<Rightarrow> v) \<rparr>"

section \<open>The board store (store/boardStore.ts)\<close>

text \<open>The store holds one value, the board or \<open>null\<close>. The sources hold two copies of
  the store; this is the one that defines \<open>sortCards\<close>. In the other copy \<open>setBoard\<close>,
  \<open>addCard\<close>, \<open>updateCard\<close> and \<open>updateCardAfterMove\<close> store the cards without
  sorting them, and \<open>moveCardOptimistic\<close>, \<open>revertBoard\<close> and \<open>removeCard\<close> compute
  the same values as here.\<close>

record BoardState =
  board :: "Board option"

text \<open>\<open>sortCards\<close> copies the array and sorts it with a comparator on \<open>position\<close>;
  \<open>Array.prototype.sort\<close> is stable, as \<open>sort_key\<close> is.\<close>

definition sortCards :: "Card list \<Rightarrow> Card list" where
  "sortCards cs = sort_key position cs"

definition setBoard :: "Board \<Rightarrow> BoardState \<Rightarrow> BoardState" where
  "setBoard b s =
     s\<lparr>board := Some (b\<lparr>lists := map (\<lambda>l. l\<lparr>cards := sortCards (cards l)\<rparr>) (lists b)\<rparr>)\<rparr>"

text \<open>The value \<open>moveCardOptimistic\<close> returns (its field \<open>card\<close> is \<open>card_r\<close>).\<close>

record MoveResult =
  previousBoard :: "Board option"
  card_r :: "Card option"

definition moveCardOptimistic ::
  "int \<Rightarrow> int \<Rightarrow> int \<Rightarrow> int \<Rightarrow> BoardState \<Rightarrow> BoardState \<times> MoveResult" where
  "moveCardOptimistic cardId sourceListId targetListId newIndex s =
     (case board s of
        None \<Rightarrow> (s, \<lparr>previousBoard = None, card_r = None\<rparr>)
      | Some prev \<Rightarrow>
          (case find (\<lambda>l. id_l l = sourceListId) (lists prev) of
             None \<Rightarrow> (s, \<lparr>previousBoard = Some prev, card_r = None\<rparr>)
           | Some sourceList \<Rightarrow>
               (let cardIndex = findIndex (\<lambda>c. id_c c = cardId) (cards sourceList)
                in if cardIndex = - 1 then (s, \<lparr>previousBoard = Some prev, card_r = None\<rparr>)
                   else
                     (let moved = cards sourceList ! nat cardIndex;
                          lists1 = update_first (\<lambda>l. id_l l = sourceListId)
                                     (\<lambda>l. l\<lparr>cards := splice_remove (cards l) cardIndex\<rparr>)
                                     (lists prev)
                      in case find (\<lambda>l. id_l l = targetListId) lists1 of
                           None \<Rightarrow> (s, \<lparr>previousBoard = Some prev, card_r = None\<rparr>)
                         | Some targetList \<Rightarrow>
                             (let moved' = moved\<lparr>list_id := targetListId\<rparr>;
                                  insertIndex = min newIndex (int (length (cards targetList)));
                                  lists2 = update_first (\<lambda>l. id_l l = targetListId)
                                             (\<lambda>l. l\<lparr>cards := splice_insert (cards l) insertIndex moved'\<rparr>)
                                             lists1
                              in (s\<lparr>board := Some (prev\<lparr>lists := lists2\<rparr>)\<rparr>,
                                  \<lparr>previousBoard = Some prev, card_r = Some moved'\<rparr>))))))"

definition revertBoard :: "Board option \<Rightarrow> BoardState \<Rightarrow> BoardState" where
  "revertBoard prev s = (case prev of None \<Rightarrow> s | Some b \<Rightarrow> s\<lparr>board := Some b\<rparr>)"

definition updateCardAfterMove :: "int \<Rightarrow> PartialCard \<Rightarrow> BoardState \<Rightarrow> BoardState" where
  "updateCardAfterMove cardId updates s =
     (case board s of
        None \<Rightarrow> s
      | Some b \<Rightarrow>
          s\<lparr>board := Some (b\<lparr>lists :=
               map (\<lambda>l. l\<lparr>cards := sortCards
                      (map (\<lambda>c. if id_c c = cardId then spread c updates else c) (cards l))\<rparr>)
                   (lists b)\<rparr>)\<rparr>)"

definition addCard :: "int \<Rightarrow> Card \<Rightarrow> BoardState \<Rightarrow> BoardState" where
  "addCard listId c s =
     (case board s of
        None \<Rightarrow> s
      | Some b \<Rightarrow>
          s\<lparr>board := Some (b\<lparr>lists :=
               map (\<lambda>l. if id_l l = listId then l\<lparr>cards := sortCards (cards l @ [c])\<rparr> else l)
                   (lists b)\<rparr>)\<rparr>)"

definition updateCard :: "int \<Rightarrow> PartialCard \<Rightarrow> BoardState \<Rightarrow> BoardState" where
  "updateCard cardId updates s =
     (case board s of
        None \<Rightarrow> s
      | Some b \<Rightarrow>
          s\<lparr>board := Some (b\<lparr>lists :=
               map (\<lambda>l. l\<lparr>cards := sortCards
                      (map (\<lambda>c. if id_c c = cardId then spread c updates else c) (cards l))\<rparr>)
                   (lists b)\<rparr>)\<rparr>)"

definition removeCard :: "int \<Rightarrow> int \<Rightarrow> BoardState \<Rightarrow> BoardState" where
  "removeCard cardId listId s =
     (case board s of
        None \<Rightarrow> s
      | Some b \<Rightarrow>
          s\<lparr>board := Some (b\<lparr>lists :=
               map (\<lambda>l. if id_l l = listId
                         then l\<lparr>cards := filter (\<lambda>c. id_c c \<noteq> cardId) (cards l)\<rparr> else l)
                   (lists b)\<rparr>)\<rparr>)"

section \<open>The move mutation (hooks/useBoard.ts)\<close>

text \<open>The variables of \<open>moveCardMutation\<close>; its field \<open>version\<close> is \<open>version_v\<close>, and
  the other fields carry the same suffix.\<close>

record MoveVariables =
  cardId_v :: int
  sourceListId_v :: int
  targetListId_v :: int
  newIndex_v :: int
  version_v :: int
  beforeCardId_v :: "int option"
  afterCardId_v :: "int option"


definition onMutate :: "MoveVariables \<Rightarrow> BoardState \<Rightarrow> BoardState \<times> MoveResult" where
  "onMutate v s =
     moveCardOptimistic (cardId_v v) (sourceListId_v v) (targetListId_v v) (newIndex_v v) s"

text \<open>What \<open>onError\<close> does besides the rollback: the toast it shows and whether it
  invalidates the board query. \<open>error?.response?.status\<close> is an optional integer, and
  the context is absent when \<open>onMutate\<close> did not return.\<close>

record ErrorEffect =
  state_e :: BoardState
  toast_e :: string
  invalidated_e :: bool

definition onError :: "int option \<Rightarrow> MoveResult option \<Rightarrow> BoardState \<Rightarrow> ErrorEffect" where
  "onError status context s =
     (let s' = (case context of
                  None \<Rightarrow> s
                | Some ctx \<Rightarrow>
                    (case previousBoard ctx of
                       None \<Rightarrow> s
                     | Some b \<Rightarrow> revertBoard (Some b) s))
      in if status = Some 409
         then \<lparr>state_e = s', toast_e = ''Card was modified by another user. Refreshing...'',
               invalidated_e = True\<rparr>
         else if status = Some 422
         then \<lparr>state_e = s', toast_e = ''Invalid move request'', invalidated_e = False\<rparr>
         else \<lparr>state_e = s', toast_e = ''Failed to move card'', invalidated_e = False\<rparr>)"

definition onSuccess :: "Card \<Rightarrow> BoardState \<Rightarrow> BoardState" where
  "onSuccess updatedCard s =
     updateCardAfterMove (id_c updatedCard)
       \<lparr> id_p = None, title_p = None, description_p = None,
         position_p = Some (position updatedCard),
         list_id_p = Some (list_id updatedCard),
         version_p = Some (version updatedCard),
         created_at_p = None \<rparr> s"

section \<open>The drop handler (components/Board/Board.tsx)\<close>

text \<open>What the handler reads of a drag-end event: the card in \<open>active.data.current\<close>,
  if any, and \<open>over\<close>, if any, with the type tag of its data.\<close>

datatype OverData = OverCard Card | OverList int | OverOther

record DragEndEvent =
  active_card :: "Card option"
  over :: "OverData option"

datatype js_error = TypeError

text \<open>The first \<open>if\<close> chain of \<open>handleDragEnd\<close>: the target list and the new index, or
  \<open>None\<close> where the handler returns.\<close>

definition drop_target :: "OverData \<Rightarrow> Card \<Rightarrow> Board \<Rightarrow> (int \<times> int) option" where
  "drop_target ov activeCard brd =
     (case ov of
        OverCard overCard \<Rightarrow>
          (let targetListId = list_id overCard
           in case find (\<lambda>l. id_l l = targetListId) (lists brd) of
                None \<Rightarrow> None
              | Some targetList \<Rightarrow>
                  (let oldIndex = findIndex (\<lambda>c. id_c c = id_c activeCard) (cards targetList);
                       overIndex = findIndex (\<lambda>c. id_c c = id_c overCard) (cards targetList)
                   in if list_id activeCard = targetListId
                      then (if oldIndex = overIndex then None
                            else Some (targetListId, overIndex))
                      else Some (targetListId, overIndex)))
      | OverList listId \<Rightarrow>
          (case find (\<lambda>l. id_l l = listId) (lists brd) of
             None \<Rightarrow> None
           | Some targetList \<Rightarrow>
               Some (listId,
                     int (length (filter (\<lambda>c. id_c c \<noteq> id_c activeCard) (cards targetList)))))
      | OverOther \<Rightarrow> None)"

text \<open>The second \<open>if\<close> chain: the neighbour ids for an index into the cards without the
  active one. Reading \<open>.id\<close> of an element out of range throws.\<close>

definition neighbours :: "Card list \<Rightarrow> int \<Rightarrow> js_error + (int option \<times> int option)" where
  "neighbours cardsWithoutActive adjustedIndex =
     (let n = int (length cardsWithoutActive)
      in if adjustedIndex = 0
         then Inr (None, if n > 0 then Some (id_c (cardsWithoutActive ! 0)) else None)
         else if adjustedIndex \<ge> n
         then Inr (if n > 0 then Some (id_c (cardsWithoutActive ! nat (n - 1))) else None, None)
         else (case at_index cardsWithoutActive (adjustedIndex - 1) of
                 None \<Rightarrow> Inl TypeError
               | Some b \<Rightarrow>
                   (case at_index cardsWithoutActive adjustedIndex of
                      None \<Rightarrow> Inl TypeError
                    | Some a \<Rightarrow> Inr (Some (id_c b), Some (id_c a)))))"

text \<open>\<open>handleDragEnd\<close>: \<open>Inr None\<close> where it returns without a move, \<open>Inr (Some v)\<close>
  where it calls \<open>moveCard(v)\<close>. Both branches of the source's adjustment assign
  \<open>newIndex\<close>, so \<open>adjustedIndex\<close> is \<open>newIndex\<close>.\<close>

definition handleDragEnd :: "DragEndEvent \<Rightarrow> Board option \<Rightarrow> js_error + MoveVariables option" where
  "handleDragEnd event b =
     (case over event of
        None \<Rightarrow> Inr None
      | Some ov \<Rightarrow>
     (case b of
        None \<Rightarrow> Inr None
      | Some brd \<Rightarrow>
     (case active_card event of
        None \<Rightarrow> Inr None
      | Some activeCard \<Rightarrow>
     (case drop_target ov activeCard brd of
        None \<Rightarrow> Inr None
      | Some (targetListId, newIndex) \<Rightarrow>
     (case find (\<lambda>l. id_l l = targetListId) (lists brd) of
        None \<Rightarrow> Inr None
      | Some targetList \<Rightarrow>
          (let cardsWithoutActive = filter (\<lambda>c. id_c c \<noteq> id_c activeCard) (cards targetList);
               adjustedIndex = newIndex
           in case neighbours cardsWithoutActive adjustedIndex of
                Inl e \<Rightarrow> Inl e
              | Inr (beforeCardId, afterCardId) \<Rightarrow>
                  Inr (Some \<lparr> cardId_v = id_c activeCard,
                              sourceListId_v = list_id activeCard,
                              targetListId_v = targetListId,
                              newIndex_v = adjustedIndex,
                              version_v = version activeCard,
                              beforeCardId_v = beforeCardId,
                              afterCardId_v = afterCardId \<rparr>)))))))"

text \<open>The effect of a drag end on the store: the optimistic update of \<open>onMutate\<close> when
  the handler calls \<open>moveCard\<close>, nothing otherwise.\<close>

definition dragEnd :: "DragEndEvent \<Rightarrow> BoardState \<Rightarrow> BoardState" where
  "dragEnd event s =
     (case handleDragEnd event (board s) of
        Inr (Some v) \<Rightarrow> fst (onMutate v s)
      | _ \<Rightarrow> s)"

section \<open>The backend contract\<close>

text \<open>Modelled from the spec: the two results of \<open>rankBetween\<close>, a rank or the signal
  that the container needs a rebalance.\<close>

datatype RankResult = Rank string | NeedsRebalance

text \<open>Modelled from the spec: the alphabet of ranks, lowercase \<open>a\<close> to \<open>z\<close>.\<close>

definition valid_rank :: "string \<Rightarrow> bool" where
  "valid_rank r = list_all (\<lambda>c. CHR ''a'' \<le> c \<and> c \<le> CHR ''z'') r"

text \<open>Modelled from the spec: the backend's \<open>get_rank_between\<close>, which is not among the
  sources (the README only shows calls of it). This is the branch for two present
  bounds, in the spec's words: walk both strings character by character; where a gap of
  at least one unused code point lies between the two characters, emit the character at
  the midpoint and stop; otherwise keep the lower bound's character and go on to the next
  position, a missing character counting as the lowest one, \<open>a\<close>. \<open>midpoint n\<close> may emit
  \<open>n\<close> more characters; needing more is \<open>None\<close>.\<close>

fun midpoint :: "nat \<Rightarrow> string \<Rightarrow> string \<Rightarrow> string option" where
  "midpoint 0 lower upper = None"
| "midpoint (Suc n) lower upper =
     (let lc = (case lower of [] \<Rightarrow> CHR ''a'' | c # _ \<Rightarrow> c);
          uc = (case upper of [] \<Rightarrow> CHR ''a'' | c # _ \<Rightarrow> c)
      in if (of_char lc :: nat) + 2 \<le> of_char uc
         then Some [char_of ((of_char lc + of_char uc) div (2::nat))]
         else map_option (\<lambda>r. lc # r) (midpoint n (tl lower) (tl upper)))"

text \<open>Modelled from the spec: \<open>rankBetween\<close> for two present bounds, with the length
  threshold of 10 characters beyond which it signals \<open>NeedsRebalance\<close>.\<close>

definition rankBetween :: "string \<Rightarrow> string \<Rightarrow> RankResult" where
  "rankBetween lower upper =
     (case midpoint 10 lower upper of None \<Rightarrow> NeedsRebalance | Some r \<Rightarrow> Rank r)"

text \<open>Modelled from the spec: the outcomes of a move; \<open>Conflict\<close> carries the current
  version of the row.\<close>

datatype MoveOutcome = Success Card | Conflict int | InvalidRequest

text \<open>Modelled from the spec: the backend's \<open>move_card\<close>, of which the sources hold only
  the README's pseudocode: lock the row, compare the expected version with the row's,
  answer 409 on a mismatch, otherwise write list, position and \<open>version + 1\<close>. The table
  of cards is a map from ids to rows; the new position is a parameter, since the
  pseudocode leaves it open; an unknown card is the spec's \<open>InvalidRequest\<close>. The
  pseudocode checks nothing about the target list or the neighbours, and neither does
  the model: it answers for requests whose target and neighbours are acceptable. A
  rebalance, which would rewrite the ranks of other rows, is not part of it.\<close>

definition move_card ::
  "(int \<rightharpoonup> Card) \<Rightarrow> int \<Rightarrow> int \<Rightarrow> string \<Rightarrow> int \<Rightarrow> MoveOutcome \<times> (int \<rightharpoonup> Card)" where
  "move_card db card_id target new_position expected =
     (case db card_id of
        None \<Rightarrow> (InvalidRequest, db)
      | Some row \<Rightarrow>
          if version row \<noteq> expected then (Conflict (version row), db)
          else (let row' = row\<lparr>list_id := target, position := new_position,
                                version := version row + 1\<rparr>
                in (Success row', db(card_id \<mapsto> row'))))"

section \<open>Notions used to state properties of the store\<close>

text \<open>All cards of a board, list after list.\<close>

definition all_cards :: "Board \<Rightarrow> Card list" where
  "all_cards b = concat (map cards (lists b))"

text \<open>Every list of the stored board is in ascending order of \<open>position\<close>.\<close>

definition board_sorted :: "BoardState \<Rightarrow> bool" where
  "board_sorted s =
     (case board s of
        None \<Rightarrow> True
      | Some b \<Rightarrow> list_all (\<lambda>l. sorted (map position (cards l))) (lists b))"

section \<open>A concrete board\<close>

text \<open>A board with two lists, used to evaluate the model: the list 10 holds the cards
  1, 2, 3 at the ranks \<open>a\<close>, \<open>b\<close>, \<open>c\<close>, the list 20 holds the card 4 at the rank \<open>n\<close>.\<close>

definition card_A :: Card where
  "card_A = \<lparr>id_c = 1, title = ''A'', description = None, position = ''a'', list_id = 10,
             version = 3, created_at = ''2024''\<rparr>"

definition card_B :: Card where
  "card_B = \<lparr>id_c = 2, title = ''B'', description = None, position = ''b'', list_id = 10,
             version = 1, created_at = ''2024''\<rparr>"

definition card_C :: Card where
  "card_C = \<lparr>id_c = 3, title = ''C'', description = None, position = ''c'', list_id = 10,
             version = 1, created_at = ''2024''\<rparr>"

definition card_D :: Card where
  "card_D = \<lparr>id_c = 4, title = ''D'', description = None, position = ''n'', list_id = 20,
             version = 1, created_at = ''2024''\<rparr>"

definition list_todo :: List where
  "list_todo = \<lparr>id_l = 10, name = ''todo'', position_l = ''a'', board_id = 1,
                cards = [card_A, card_B, card_C]\<rparr>"

definition list_done :: List where
  "list_done = \<lparr>id_l = 20, name = ''done'', position_l = ''n'', board_id = 1,
                cards = [card_D]\<rparr>"

definition example_board :: Board where
  "example_board = \<lparr>id_b = 1, name_b = ''board'', description_b = None, owner_id = 1,
                    created_at_b = ''2024'', updated_at = ''2024'',
                    lists = [list_todo, list_done]\<rparr>"

definition example_state :: BoardState where
  "example_state = \<lparr>board = Some example_board\<rparr>"

text \<open>The same board with a third list, 30, that holds no card.\<close>

definition list_empty :: List where
  "list_empty = \<lparr>id_l = 30, name = ''later'', position_l = ''t'', board_id = 1, cards = []\<rparr>"

definition board_with_empty :: Board where
  "board_with_empty = example_board\<lparr>lists := [list_todo, list_done, list_empty]\<rparr>"

text \<open>Moving the card 1 to the head of the list 20.\<close>

definition example_move :: MoveVariables where
  "example_move = \<lparr>cardId_v = 1, sourceListId_v = 10, targetListId_v = 20, newIndex_v = 0,
                    version_v = 3, beforeCardId_v = None, afterCardId_v = Some 4\<rparr>"

lemmas example_defs =
  card_A_def card_B_def card_C_def card_D_def list_todo_def list_done_def
  example_board_def example_state_def example_move_def list_empty_def board_with_empty_def

section \<open>Rollback of a failed move\<close>

text \<open>
  C3. For every store state and every move, \<open>revertBoard\<close> applied to the
  \<open>previousBoard\<close> that the optimistic update returned puts the store back to its value
  before the update, and so does \<open>onError\<close> for every failure status. The toast for the
  status 409 differs from the toast for every other status, and only 409 invalidates the
  board query.
\<close>

theorem move_error_restores_board:
  "revertBoard (previousBoard (snd (onMutate v s))) (fst (onMutate v s)) = s
   \<and> state_e (onError status (Some (snd (onMutate v s))) (fst (onMutate v s))) = s
   \<and> (status \<noteq> Some 409 \<longrightarrow>
        toast_e (onError status (Some (snd (onMutate v s))) (fst (onMutate v s)))
          \<noteq> toast_e (onError (Some 409) (Some (snd (onMutate v s))) (fst (onMutate v s)))
        \<and> \<not> invalidated_e (onError status (Some (snd (onMutate v s))) (fst (onMutate v s))))
   \<and> invalidated_e (onError (Some 409) (Some (snd (onMutate v s))) (fst (onMutate v s)))"
  by (auto simp: onMutate_def moveCardOptimistic_def onError_def revertBoard_def Let_def
      split: option.splits if_splits)

theorem move_error_restores_board_witness:
  "fst (onMutate example_move example_state) \<noteq> example_state
   \<and> state_e (onError (Some 500) (Some (snd (onMutate example_move example_state)))
               (fst (onMutate example_move example_state))) = example_state
   \<and> toast_e (onError (Some 500) (Some (snd (onMutate example_move example_state)))
               (fst (onMutate example_move example_state)))
       \<noteq> toast_e (onError (Some 409) (Some (snd (onMutate example_move example_state)))
                   (fst (onMutate example_move example_state)))"
proof -
  have changed: "fst (onMutate example_move example_state) \<noteq> example_state"
    by (simp add: onMutate_def moveCardOptimistic_def example_defs splice_remove_def
        splice_insert_def Let_def)
  have status: "Some (500::int) \<noteq> Some 409"
    by simp
  show ?thesis
    using changed status move_error_restores_board [of example_move example_state "Some 500"]
    by blast
qed

section \<open>Stale versions are rejected\<close>

text \<open>
  C4. If a move carrying the expected version \<open>v\<close> succeeds, a later move of the same
  card that still carries \<open>v\<close> gets \<open>Conflict\<close>, and so does a second such retry, whatever
  target and position they ask for. A \<open>Conflict\<close> leaves the table as it was, and the
  version of a row changes only with \<open>Success\<close>, by one.
\<close>

theorem move_card_stale_version_conflict:
  assumes "move_card db cid tgt pos v = (Success c, db')"
  shows "move_card db' cid tgt2 pos2 v = (Conflict (v + 1), db')
       \<and> move_card (snd (move_card db' cid tgt2 pos2 v)) cid tgt3 pos3 v
           = (Conflict (v + 1), db')
       \<and> (\<forall>d i t p e k. fst (move_card d i t p e) = Conflict k
             \<longrightarrow> snd (move_card d i t p e) = d)
       \<and> (\<forall>d i t p e row. d i = Some row \<longrightarrow>
             (case fst (move_card d i t p e) of
                Success r \<Rightarrow>
                  version r = version row + 1
                  \<and> map_option version (snd (move_card d i t p e) i) = Some (version row + 1)
              | _ \<Rightarrow> snd (move_card d i t p e) = d))"
proof -
  from assms obtain row where row: "db cid = Some row" "version row = v"
    and db': "db' = db(cid \<mapsto> row\<lparr>list_id := tgt, position := pos, version := version row + 1\<rparr>)"
    by (auto simp: move_card_def Let_def split: option.splits if_splits)
  have first: "move_card db' cid tgt2 pos2 v = (Conflict (v + 1), db')"
    using row db' by (simp add: move_card_def)
  have second: "move_card (snd (move_card db' cid tgt2 pos2 v)) cid tgt3 pos3 v
                = (Conflict (v + 1), db')"
    using row db' by (simp add: move_card_def)
  have no_write: "\<forall>d i t p e k. fst (move_card d i t p e) = Conflict k
                    \<longrightarrow> snd (move_card d i t p e) = d"
    by (auto simp: move_card_def Let_def split: option.splits if_splits)
  have only_success: "\<forall>d i t p e row. d i = Some row \<longrightarrow>
             (case fst (move_card d i t p e) of
                Success r \<Rightarrow>
                  version r = version row + 1
                  \<and> map_option version (snd (move_card d i t p e) i) = Some (version row + 1)
              | _ \<Rightarrow> snd (move_card d i t p e) = d)"
    by (auto simp: move_card_def Let_def split: option.splits if_splits)
  from first second no_write only_success show ?thesis
    by blast
qed

theorem move_card_stale_version_conflict_witness:
  "move_card [1 \<mapsto> card_A] 1 20 ''g'' 3
     = (Success (card_A\<lparr>list_id := 20, position := ''g'', version := 4\<rparr>),
        [1 \<mapsto> card_A\<lparr>list_id := 20, position := ''g'', version := 4\<rparr>])
   \<and> move_card [1 \<mapsto> card_A\<lparr>list_id := 20, position := ''g'', version := 4\<rparr>] 1 10 ''b'' 3
     = (Conflict 4, [1 \<mapsto> card_A\<lparr>list_id := 20, position := ''g'', version := 4\<rparr>])"
proof -
  have ok: "move_card [1 \<mapsto> card_A] 1 20 ''g'' 3
     = (Success (card_A\<lparr>list_id := 20, position := ''g'', version := 4\<rparr>),
        [1 \<mapsto> card_A\<lparr>list_id := 20, position := ''g'', version := 4\<rparr>])"
    by (simp add: move_card_def card_A_def Let_def)
  show ?thesis
    using ok move_card_stale_version_conflict [OF ok, of 10 "''b''"]
    by simp
qed

section \<open>A drop on the card's own place\<close>

text \<open>
  C10. When the drop target is a card of the list the dragged card belongs to, and the
  dragged card's index in that list equals the index of the card it is dropped on,
  \<open>handleDragEnd\<close> returns without calling \<open>moveCard\<close> and the store is unchanged.
\<close>

theorem drop_on_own_position_is_noop:
  assumes "over event = Some (OverCard overCard)"
    and "active_card event = Some activeCard"
    and "list_id activeCard = list_id overCard"
    and "board s = Some brd"
    and "find (\<lambda>l. id_l l = list_id overCard) (lists brd) = Some targetList"
    and "findIndex (\<lambda>c. id_c c = id_c activeCard) (cards targetList)
         = findIndex (\<lambda>c. id_c c = id_c overCard) (cards targetList)"
  shows "handleDragEnd event (board s) = Inr None \<and> dragEnd event s = s"
  using assms by (simp add: handleDragEnd_def dragEnd_def drop_target_def)

theorem drop_on_own_position_is_noop_witness:
  "handleDragEnd \<lparr>active_card = Some card_B, over = Some (OverCard card_B)\<rparr>
     (board example_state) = Inr None
   \<and> dragEnd \<lparr>active_card = Some card_B, over = Some (OverCard card_B)\<rparr> example_state
     = example_state"
proof -
  have found: "find (\<lambda>l. id_l l = list_id card_B) (lists example_board) = Some list_todo"
    by (simp add: example_defs)
  show ?thesis
    using drop_on_own_position_is_noop
      [of "\<lparr>active_card = Some card_B, over = Some (OverCard card_B)\<rparr>" card_B card_B
          example_state example_board list_todo, OF _ _ _ _ found]
    by (simp add: example_state_def)
qed

section \<open>Facts about the array operations\<close>

lemma findIndex_ge: "- 1 \<le> findIndex P xs"
  by (induction xs) (auto simp: Let_def)

lemma findIndex_none: "findIndex P xs = - 1 \<longleftrightarrow> (\<forall>x\<in>set xs. \<not> P x)"
proof (induction xs)
  case Nil
  show ?case by simp
next
  case (Cons x xs)
  have "- 1 \<le> findIndex P xs" by (rule findIndex_ge)
  with Cons show ?case by (auto simp: Let_def)
qed

lemma findIndex_found:
  "findIndex P xs \<noteq> - 1 \<Longrightarrow>
     0 \<le> findIndex P xs \<and> nat (findIndex P xs) < length xs \<and> P (xs ! nat (findIndex P xs))"
proof (induction xs)
  case Nil
  then show ?case by simp
next
  case (Cons x xs)
  show ?case
  proof (cases "P x")
    case True
    then show ?thesis by simp
  next
    case False
    with Cons.prems have ne: "findIndex P xs \<noteq> - 1"
      by (auto simp: Let_def split: if_splits)
    from Cons.IH [OF ne] False ne show ?thesis
      by (simp add: Let_def nat_add_distrib)
  qed
qed

lemma find_update_first_same:
  "(\<And>x. P x \<Longrightarrow> P (f x)) \<Longrightarrow> find P (update_first P f xs) = map_option f (find P xs)"
  by (induction xs) auto

lemma find_update_first_other:
  "(\<And>x. Q (f x) = Q x) \<Longrightarrow> (\<And>x. P x \<Longrightarrow> \<not> Q x) \<Longrightarrow>
     find Q (update_first P f xs) = find Q xs"
  by (induction xs) auto

lemma find_update_first_None:
  "(\<And>x. Q (f x) = Q x) \<Longrightarrow> find Q (update_first P f xs) = None \<longleftrightarrow> find Q xs = None"
  by (induction xs) auto

lemma mset_cards_update_first:
  "find P xs = Some l \<Longrightarrow>
     mset (concat (map cards (update_first P f xs))) + mset (cards l)
       = mset (concat (map cards xs)) + mset (cards (f l))"
  by (induction xs) (auto split: if_splits)

lemma mset_splice_remove:
  assumes "0 \<le> i" "nat i < length xs"
  shows "mset (splice_remove xs i) + {#xs ! nat i#} = mset xs"
proof -
  have "mset xs = mset (take (nat i) xs @ xs ! nat i # drop (Suc (nat i)) xs)"
    using assms by (simp only: id_take_nth_drop [symmetric])
  then show ?thesis by (simp add: splice_remove_def)
qed

lemma mset_splice_insert: "mset (splice_insert xs k x) = add_mset x (mset xs)"
proof -
  have "mset (take n xs) + mset (drop n xs) = mset xs" for n
    by (metis append_take_drop_id mset_append)
  then show ?thesis by (simp add: splice_insert_def Let_def)
qed


section \<open>What the optimistic move does\<close>

lemma moveCardOptimistic_fails:
  assumes "board s = None
         \<or> (\<exists>prev. board s = Some prev \<and>
               (find (\<lambda>l. id_l l = src) (lists prev) = None
              \<or> (\<exists>sl. find (\<lambda>l. id_l l = src) (lists prev) = Some sl
                       \<and> (\<forall>c\<in>set (cards sl). id_c c \<noteq> cardId))
              \<or> find (\<lambda>l. id_l l = tgt) (lists prev) = None))"
  shows "moveCardOptimistic cardId src tgt newIndex s
         = (s, \<lparr>previousBoard = board s, card_r = None\<rparr>)"
proof (cases "board s")
  case None
  then show ?thesis by (simp add: moveCardOptimistic_def)
next
  case (Some prev)
  show ?thesis
  proof (cases "find (\<lambda>l. id_l l = src) (lists prev)")
    case None
    with Some show ?thesis by (simp add: moveCardOptimistic_def)
  next
    case sl: (Some sl)
    show ?thesis
    proof (cases "findIndex (\<lambda>c. id_c c = cardId) (cards sl) = - 1")
      case True
      with Some sl show ?thesis by (simp add: moveCardOptimistic_def)
    next
      case False
      then have "\<not> (\<forall>c\<in>set (cards sl). id_c c \<noteq> cardId)"
        by (simp add: findIndex_none)
      with assms Some sl have "find (\<lambda>l. id_l l = tgt) (lists prev) = None"
        by auto
      then have "find (\<lambda>l. id_l l = tgt)
                   (update_first (\<lambda>l. id_l l = src)
                      (\<lambda>l. l\<lparr>cards := splice_remove (cards l)
                                         (findIndex (\<lambda>c. id_c c = cardId) (cards sl))\<rparr>)
                      (lists prev)) = None"
        by (simp add: find_update_first_None)
      with Some sl False show ?thesis
        by (simp add: moveCardOptimistic_def Let_def)
    qed
  qed
qed

lemma moveCardOptimistic_unfold:
  assumes "board s = Some prev"
    and "find (\<lambda>l. id_l l = src) (lists prev) = Some sl"
    and "findIndex (\<lambda>c. id_c c = cardId) (cards sl) = i"
    and "i \<noteq> - 1"
    and "find (\<lambda>l. id_l l = tgt)
           (update_first (\<lambda>l. id_l l = src) (\<lambda>l. l\<lparr>cards := splice_remove (cards l) i\<rparr>)
              (lists prev)) = Some tg1"
  shows "moveCardOptimistic cardId src tgt newIndex s
         = (s\<lparr>board := Some (prev\<lparr>lists :=
               update_first (\<lambda>l. id_l l = tgt)
                 (\<lambda>l. l\<lparr>cards := splice_insert (cards l)
                          (min newIndex (int (length (cards tg1))))
                          ((cards sl ! nat i)\<lparr>list_id := tgt\<rparr>)\<rparr>)
                 (update_first (\<lambda>l. id_l l = src)
                    (\<lambda>l. l\<lparr>cards := splice_remove (cards l) i\<rparr>) (lists prev))\<rparr>)\<rparr>,
            \<lparr>previousBoard = Some prev, card_r = Some ((cards sl ! nat i)\<lparr>list_id := tgt\<rparr>)\<rparr>)"
  using assms by (simp add: moveCardOptimistic_def Let_def)

lemma moveCardOptimistic_succeeds:
  assumes prev: "board s = Some prev"
    and sl: "find (\<lambda>l. id_l l = src) (lists prev) = Some sl"
    and mem: "\<exists>c\<in>set (cards sl). id_c c = cardId"
    and tg: "find (\<lambda>l. id_l l = tgt) (lists prev) = Some tg"
    and i_def: "i = findIndex (\<lambda>c. id_c c = cardId) (cards sl)"
    and c_def: "c = cards sl ! nat i"
    and rest_def: "rest = (if src = tgt then splice_remove (cards tg) i else cards tg)"
    and k_def: "k = (if min newIndex (int (length rest)) < 0
                      then nat (max (int (length rest) + newIndex) 0)
                      else nat (min newIndex (int (length rest))))"
  shows "\<exists>b'. moveCardOptimistic cardId src tgt newIndex s
                = (s\<lparr>board := Some b'\<rparr>,
                   \<lparr>previousBoard = Some prev, card_r = Some (c\<lparr>list_id := tgt\<rparr>)\<rparr>)
            \<and> (\<exists>tg'. find (\<lambda>l. id_l l = tgt) (lists b') = Some tg'
                   \<and> cards tg' = take k rest @ c\<lparr>list_id := tgt\<rparr> # drop k rest)
            \<and> mset (all_cards b') + {#c#} = mset (all_cards prev) + {#c\<lparr>list_id := tgt\<rparr>#}"
    and "c \<in> set (cards sl)" and "id_c c = cardId" and "k \<le> length rest"
    and "0 \<le> newIndex \<Longrightarrow> int k = min newIndex (int (length rest))"
proof -
  have ine: "i \<noteq> - 1"
    using mem by (simp add: i_def findIndex_none)
  from findIndex_found [of "\<lambda>c. id_c c = cardId" "cards sl"] ine
  have irange: "0 \<le> i" "nat i < length (cards sl)" and cid: "id_c c = cardId"
    by (simp_all add: i_def c_def)
  show "c \<in> set (cards sl)" using irange by (simp add: c_def)
  show "id_c c = cardId" by (rule cid)
  show "k \<le> length rest" by (auto simp: k_def)
  show "0 \<le> newIndex \<Longrightarrow> int k = min newIndex (int (length rest))"
    by (auto simp: k_def)
  define rm where "rm = (\<lambda>l::List. l\<lparr>cards := splice_remove (cards l) i\<rparr>)"
  define lists1 where "lists1 = update_first (\<lambda>l. id_l l = src) rm (lists prev)"
  define tg1 where "tg1 = (if src = tgt then rm sl else tg)"
  have tg1: "find (\<lambda>l. id_l l = tgt) lists1 = Some tg1"
  proof (cases "src = tgt")
    case True
    have "find (\<lambda>l. id_l l = src) lists1 = map_option rm (find (\<lambda>l. id_l l = src) (lists prev))"
      unfolding lists1_def by (rule find_update_first_same) (simp add: rm_def)
    with True sl show ?thesis by (simp add: tg1_def)
  next
    case False
    have "find (\<lambda>l. id_l l = tgt) lists1 = find (\<lambda>l. id_l l = tgt) (lists prev)"
      unfolding lists1_def
    proof (rule find_update_first_other)
      show "(id_l (rm x) = tgt) = (id_l x = tgt)" for x by (simp add: rm_def)
      show "id_l x = src \<Longrightarrow> id_l x \<noteq> tgt" for x using False by simp
    qed
    with False tg show ?thesis by (simp add: tg1_def)
  qed
  have same: "src = tgt \<Longrightarrow> sl = tg"
    using sl tg by simp
  have rest: "cards tg1 = rest"
    using same by (auto simp: tg1_def rest_def rm_def)
  define ins where "ins = (\<lambda>l::List. l\<lparr>cards := splice_insert (cards l)
                              (min newIndex (int (length (cards tg1)))) (c\<lparr>list_id := tgt\<rparr>)\<rparr>)"
  define lists2 where "lists2 = update_first (\<lambda>l. id_l l = tgt) ins lists1"
  define b' where "b' = prev\<lparr>lists := lists2\<rparr>"
  have run: "moveCardOptimistic cardId src tgt newIndex s
             = (s\<lparr>board := Some b'\<rparr>,
                \<lparr>previousBoard = Some prev, card_r = Some (c\<lparr>list_id := tgt\<rparr>)\<rparr>)"
    using moveCardOptimistic_unfold [OF prev sl i_def [symmetric] ine
            tg1 [unfolded lists1_def rm_def], of newIndex]
    by (simp add: b'_def lists2_def ins_def c_def lists1_def rm_def)
  have "find (\<lambda>l. id_l l = tgt) lists2 = map_option ins (find (\<lambda>l. id_l l = tgt) lists1)"
    unfolding lists2_def by (rule find_update_first_same) (simp add: ins_def)
  then have tg2: "find (\<lambda>l. id_l l = tgt) (lists b') = Some (ins tg1)"
    using tg1 by (simp add: b'_def)
  have shape: "cards (ins tg1) = take k rest @ c\<lparr>list_id := tgt\<rparr> # drop k rest"
    using rest by (auto simp: ins_def splice_insert_def Let_def k_def)
  have m1: "mset (concat (map cards lists1)) + mset (cards sl)
            = mset (concat (map cards (lists prev))) + mset (cards (rm sl))"
    unfolding lists1_def by (rule mset_cards_update_first [OF sl])
  have m2: "mset (concat (map cards lists2)) + mset (cards tg1)
            = mset (concat (map cards lists1)) + mset (cards (ins tg1))"
    unfolding lists2_def by (rule mset_cards_update_first [OF tg1])
  have m3: "mset (cards (rm sl)) + {#c#} = mset (cards sl)"
    using mset_splice_remove [OF irange] by (simp add: rm_def c_def)
  have m4: "mset (cards (ins tg1)) = mset (cards tg1) + {#c\<lparr>list_id := tgt\<rparr>#}"
    by (simp add: ins_def mset_splice_insert)
  define A where "A = mset (concat (map cards lists2))"
  define B where "B = mset (concat (map cards lists1))"
  define P where "P = mset (concat (map cards (lists prev)))"
  have "A + {#c#} + (mset (cards tg1) + mset (cards sl))
        = (A + mset (cards tg1)) + (mset (cards sl) + {#c#})"
    by (simp add: ac_simps)
  also have "\<dots> = (B + (mset (cards tg1) + {#c\<lparr>list_id := tgt\<rparr>#})) + (mset (cards sl) + {#c#})"
    using m2 m4 by (simp add: A_def B_def)
  also have "\<dots> = (B + mset (cards sl)) + {#c#} + (mset (cards tg1) + {#c\<lparr>list_id := tgt\<rparr>#})"
    by (simp add: ac_simps)
  also have "\<dots> = (P + mset (cards (rm sl))) + {#c#} + (mset (cards tg1) + {#c\<lparr>list_id := tgt\<rparr>#})"
    using m1 by (simp add: B_def P_def)
  also have "\<dots> = P + (mset (cards (rm sl)) + {#c#}) + (mset (cards tg1) + {#c\<lparr>list_id := tgt\<rparr>#})"
    by (simp add: ac_simps)
  also have "\<dots> = P + mset (cards sl) + (mset (cards tg1) + {#c\<lparr>list_id := tgt\<rparr>#})"
    by (simp only: m3)
  also have "\<dots> = P + {#c\<lparr>list_id := tgt\<rparr>#} + (mset (cards tg1) + mset (cards sl))"
    by (simp add: ac_simps)
  finally have "A + {#c#} = P + {#c\<lparr>list_id := tgt\<rparr>#}"
    by (simp only: add_right_cancel)
  then have cons: "mset (all_cards b') + {#c#} = mset (all_cards prev) + {#c\<lparr>list_id := tgt\<rparr>#}"
    by (simp add: all_cards_def b'_def A_def P_def)
  from run tg2 shape cons
  show "\<exists>b'. moveCardOptimistic cardId src tgt newIndex s
                = (s\<lparr>board := Some b'\<rparr>,
                   \<lparr>previousBoard = Some prev, card_r = Some (c\<lparr>list_id := tgt\<rparr>)\<rparr>)
            \<and> (\<exists>tg'. find (\<lambda>l. id_l l = tgt) (lists b') = Some tg'
                   \<and> cards tg' = take k rest @ c\<lparr>list_id := tgt\<rparr> # drop k rest)
            \<and> mset (all_cards b') + {#c#} = mset (all_cards prev) + {#c\<lparr>list_id := tgt\<rparr>#}"
    by blast
qed


lemma handleDragEnd_sends_active:
  assumes "handleDragEnd event b = Inr (Some v)"
  shows "\<exists>a. active_card event = Some a \<and> cardId_v v = id_c a \<and> version_v v = version a
           \<and> sourceListId_v v = list_id a"
  using assms
  by (auto simp: handleDragEnd_def Let_def split: option.splits sum.splits prod.splits)

text \<open>
  C9. \<open>moveCardOptimistic\<close> returns for every input. If the board is \<open>null\<close>, or the
  source list, the card in it, or the target list is not found, the store is left as it
  was and the returned card is undefined. Otherwise the card is taken out of the source
  list once and put into the target list once, at an index that is at most the length of
  the target list (for a non-negative \<open>newIndex\<close> the minimum of \<open>newIndex\<close> and that
  length), and the board holds as many cards as before.
\<close>

theorem moveCardOptimistic_total_conserving:
  assumes run: "moveCardOptimistic cardId src tgt newIndex s = (s', r)"
  shows "previousBoard r = board s
    \<and> ((board s = None
         \<or> (\<exists>prev. board s = Some prev \<and>
               (find (\<lambda>l. id_l l = src) (lists prev) = None
              \<or> (\<exists>sl. find (\<lambda>l. id_l l = src) (lists prev) = Some sl
                       \<and> (\<forall>c\<in>set (cards sl). id_c c \<noteq> cardId))
              \<or> find (\<lambda>l. id_l l = tgt) (lists prev) = None)))
        \<longrightarrow> s' = s \<and> card_r r = None)
    \<and> (\<forall>prev sl tg.
          board s = Some prev
          \<and> find (\<lambda>l. id_l l = src) (lists prev) = Some sl
          \<and> (\<exists>c\<in>set (cards sl). id_c c = cardId)
          \<and> find (\<lambda>l. id_l l = tgt) (lists prev) = Some tg
        \<longrightarrow> (\<exists>c b' tg' k rest.
               c \<in> set (cards sl) \<and> id_c c = cardId
             \<and> card_r r = Some (c\<lparr>list_id := tgt\<rparr>)
             \<and> board s' = Some b'
             \<and> rest = (if src = tgt
                        then splice_remove (cards tg)
                               (findIndex (\<lambda>c. id_c c = cardId) (cards sl))
                        else cards tg)
             \<and> find (\<lambda>l. id_l l = tgt) (lists b') = Some tg'
             \<and> cards tg' = take k rest @ c\<lparr>list_id := tgt\<rparr> # drop k rest
             \<and> k \<le> length rest
             \<and> (0 \<le> newIndex \<longrightarrow> int k = min newIndex (int (length rest)))
             \<and> mset (all_cards b') + {#c#} = mset (all_cards prev) + {#c\<lparr>list_id := tgt\<rparr>#}
             \<and> length (all_cards b') = length (all_cards prev)))"
proof (intro conjI impI allI)
  show "previousBoard r = board s"
    using run
    by (auto simp: moveCardOptimistic_def Let_def split: option.splits if_splits)
next
  assume "board s = None
         \<or> (\<exists>prev. board s = Some prev \<and>
               (find (\<lambda>l. id_l l = src) (lists prev) = None
              \<or> (\<exists>sl. find (\<lambda>l. id_l l = src) (lists prev) = Some sl
                       \<and> (\<forall>c\<in>set (cards sl). id_c c \<noteq> cardId))
              \<or> find (\<lambda>l. id_l l = tgt) (lists prev) = None))"
  from moveCardOptimistic_fails [OF this, of newIndex] run
  show "s' = s" and "card_r r = None" by simp_all
next
  fix prev sl tg
  assume h: "board s = Some prev
          \<and> find (\<lambda>l. id_l l = src) (lists prev) = Some sl
          \<and> (\<exists>c\<in>set (cards sl). id_c c = cardId)
          \<and> find (\<lambda>l. id_l l = tgt) (lists prev) = Some tg"
  define i where "i = findIndex (\<lambda>c. id_c c = cardId) (cards sl)"
  define c where "c = cards sl ! nat i"
  define rest where "rest = (if src = tgt then splice_remove (cards tg) i else cards tg)"
  define k where "k = (if min newIndex (int (length rest)) < 0
                      then nat (max (int (length rest) + newIndex) 0)
                      else nat (min newIndex (int (length rest))))"
  note facts = moveCardOptimistic_succeeds [of s prev src sl cardId tgt tg i c rest k newIndex,
      OF _ _ _ _ i_def c_def rest_def k_def]
  from h facts(1) obtain b' tg' where
    eq: "moveCardOptimistic cardId src tgt newIndex s
         = (s\<lparr>board := Some b'\<rparr>,
            \<lparr>previousBoard = Some prev, card_r = Some (c\<lparr>list_id := tgt\<rparr>)\<rparr>)"
    and tg': "find (\<lambda>l. id_l l = tgt) (lists b') = Some tg'"
             "cards tg' = take k rest @ c\<lparr>list_id := tgt\<rparr> # drop k rest"
    and cons: "mset (all_cards b') + {#c#} = mset (all_cards prev) + {#c\<lparr>list_id := tgt\<rparr>#}"
    by blast
  from eq run have r: "card_r r = Some (c\<lparr>list_id := tgt\<rparr>)" and s': "board s' = Some b'"
    by auto
  from h facts(2) have cin: "c \<in> set (cards sl)" by blast
  from h facts(3) have cid: "id_c c = cardId" by blast
  from h facts(4) have kle: "k \<le> length rest" by blast
  from h facts(5) have kmin: "0 \<le> newIndex \<longrightarrow> int k = min newIndex (int (length rest))" by blast
  have "size (mset (all_cards b') + {#c#}) = size (mset (all_cards prev) + {#c\<lparr>list_id := tgt\<rparr>#})"
    by (simp only: cons)
  then have len: "length (all_cards b') = length (all_cards prev)"
    by simp
  have restq: "rest = (if src = tgt
                        then splice_remove (cards tg)
                               (findIndex (\<lambda>c. id_c c = cardId) (cards sl))
                        else cards tg)"
    by (simp add: rest_def i_def)
  from cin cid r s' restq tg' kle kmin cons len
  show "\<exists>c b' tg' k rest.
               c \<in> set (cards sl) \<and> id_c c = cardId
             \<and> card_r r = Some (c\<lparr>list_id := tgt\<rparr>)
             \<and> board s' = Some b'
             \<and> rest = (if src = tgt
                        then splice_remove (cards tg)
                               (findIndex (\<lambda>c. id_c c = cardId) (cards sl))
                        else cards tg)
             \<and> find (\<lambda>l. id_l l = tgt) (lists b') = Some tg'
             \<and> cards tg' = take k rest @ c\<lparr>list_id := tgt\<rparr> # drop k rest
             \<and> k \<le> length rest
             \<and> (0 \<le> newIndex \<longrightarrow> int k = min newIndex (int (length rest)))
             \<and> mset (all_cards b') + {#c#} = mset (all_cards prev) + {#c\<lparr>list_id := tgt\<rparr>#}
             \<and> length (all_cards b') = length (all_cards prev)"
    by blast
qed

theorem moveCardOptimistic_total_conserving_witness:
  "(\<exists>b'. board (fst (moveCardOptimistic 1 10 20 5 example_state)) = Some b'
         \<and> length (all_cards b') = length (all_cards example_board))
   \<and> fst (moveCardOptimistic 1 10 30 0 example_state) = example_state"
proof -
  have b: "board example_state = Some example_board"
    by (simp add: example_state_def)
  have sl: "find (\<lambda>l. id_l l = 10) (lists example_board) = Some list_todo"
    by (simp add: example_defs)
  have tg: "find (\<lambda>l. id_l l = 20) (lists example_board) = Some list_done"
    by (simp add: example_defs)
  have mem: "\<exists>c\<in>set (cards list_todo). id_c c = 1"
    by (simp add: example_defs)
  have none: "find (\<lambda>l. id_l l = 30) (lists example_board) = None"
    by (simp add: example_defs)
  have run1: "moveCardOptimistic 1 10 20 5 example_state
              = (fst (moveCardOptimistic 1 10 20 5 example_state),
                 snd (moveCardOptimistic 1 10 20 5 example_state))"
    by simp
  have run2: "moveCardOptimistic 1 10 30 0 example_state
              = (fst (moveCardOptimistic 1 10 30 0 example_state),
                 snd (moveCardOptimistic 1 10 30 0 example_state))"
    by simp
  from moveCardOptimistic_total_conserving [OF run1] b sl tg mem
  have first: "\<exists>b'. board (fst (moveCardOptimistic 1 10 20 5 example_state)) = Some b'
         \<and> length (all_cards b') = length (all_cards example_board)"
    by blast
  from moveCardOptimistic_total_conserving [OF run2] b none
  have second: "fst (moveCardOptimistic 1 10 30 0 example_state) = example_state"
    by blast
  from first second show ?thesis by blast
qed



section \<open>A rank between two bounds\<close>

lemma midpoint_empty_bounds: "midpoint n [] [] = None"
  by (induction n) simp_all

lemma midpoint_above_lower: "midpoint n lower upper = Some r \<Longrightarrow> lower < r"
proof (induction n arbitrary: lower upper r)
  case 0
  then show ?case by simp
next
  case (Suc n)
  define lc where "lc = (case lower of [] \<Rightarrow> CHR ''a'' | c # _ \<Rightarrow> c)"
  define uc where "uc = (case upper of [] \<Rightarrow> CHR ''a'' | c # _ \<Rightarrow> c)"
  show ?case
  proof (cases "(of_char lc :: nat) + 2 \<le> of_char uc")
    case True
    define m where "m = char_of ((of_char lc + of_char uc) div (2::nat))"
    have "(of_char lc + of_char uc) div (2::nat) < 256"
      using True nat_of_char_less_256 [of uc] by linarith
    then have "of_char m = (of_char lc + of_char uc) div (2::nat)"
      by (simp add: m_def of_char_of)
    with True have "lc < m"
      by (simp add: less_char_def)
    moreover from Suc.prems True have "r = [m]"
      by (simp add: lc_def uc_def m_def Let_def)
    ultimately show ?thesis
      by (cases lower) (simp_all add: lc_def)
  next
    case False
    with Suc.prems obtain r' where r': "midpoint n (tl lower) (tl upper) = Some r'"
      and r: "r = lc # r'"
      by (auto simp: lc_def uc_def Let_def)
    from Suc.IH [OF r'] have "tl lower < r'" .
    with r show ?thesis
      by (cases lower) (simp_all add: lc_def)
  qed
qed

lemma valid_rank_Cons: "valid_rank (c # cs) \<longleftrightarrow> CHR ''a'' \<le> c \<and> c \<le> CHR ''z'' \<and> valid_rank cs"
  by (simp add: valid_rank_def)

lemma valid_rank_Nil: "valid_rank []"
  by (simp add: valid_rank_def)

lemma midpoint_below_upper:
  "valid_rank lower \<Longrightarrow> valid_rank upper \<Longrightarrow> lower < upper
     \<Longrightarrow> midpoint n lower upper = Some r \<Longrightarrow> r < upper"
proof (induction n arbitrary: lower upper r)
  case 0
  then show ?case by simp
next
  case (Suc n)
  from Suc.prems(3) obtain u us where upper: "upper = u # us"
    by (cases upper) simp_all
  with Suc.prems(2) have u: "CHR ''a'' \<le> u" and us: "valid_rank us"
    by (simp_all add: valid_rank_Cons)
  define lc where "lc = (case lower of [] \<Rightarrow> CHR ''a'' | c # _ \<Rightarrow> c)"
  show ?case
  proof (cases "(of_char lc :: nat) + 2 \<le> of_char u")
    case True
    define m where "m = char_of ((of_char lc + of_char u) div (2::nat))"
    have "(of_char lc + of_char u) div (2::nat) < 256"
      using True nat_of_char_less_256 [of u] by linarith
    then have "of_char m = (of_char lc + of_char u) div (2::nat)"
      by (simp add: m_def of_char_of)
    with True have "m < u"
      by (simp add: less_char_def)
    moreover from Suc.prems(4) True have "r = [m]"
      by (simp add: lc_def upper m_def Let_def)
    ultimately show ?thesis
      by (simp add: upper)
  next
    case False
    with Suc.prems(4) obtain r' where r': "midpoint n (tl lower) us = Some r'"
      and r: "r = lc # r'"
      by (auto simp: lc_def upper Let_def)
    show ?thesis
    proof (cases lower)
      case Nil
      then have lc: "lc = CHR ''a''" by (simp add: lc_def)
      show ?thesis
      proof (cases "u = CHR ''a''")
        case True
        from r' Nil have "us \<noteq> []"
          by (auto simp: midpoint_empty_bounds)
        then have "[] < us" by (cases us) simp_all
        from Suc.IH [OF valid_rank_Nil us this] r' Nil have "r' < us" by simp
        with True lc r show ?thesis by (simp add: upper)
      next
        case False
        with u lc have "lc < u" by simp
        with r show ?thesis by (simp add: upper)
      qed
    next
      case (Cons l ls)
      then have lc: "lc = l" by (simp add: lc_def)
      from Suc.prems(1) Cons have ls: "valid_rank ls" by (simp add: valid_rank_Cons)
      from Suc.prems(3) Cons upper have "l < u \<or> (l = u \<and> ls < us)" by simp
      then show ?thesis
      proof
        assume "l < u"
        with lc r show ?thesis by (simp add: upper)
      next
        assume eq: "l = u \<and> ls < us"
        with Suc.IH [OF ls us] r' Cons have "r' < us" by simp
        with eq lc r show ?thesis by (simp add: upper)
      qed
    qed
  qed
qed

lemma midpoint_length: "midpoint n lower upper = Some r \<Longrightarrow> length r \<le> n"
  by (induction n arbitrary: lower upper r) (auto simp: Let_def split: if_splits)

text \<open>
  C1. For two ranks over \<open>a\<close> to \<open>z\<close> with \<open>lower < upper\<close>, \<open>rankBetween\<close> either
  signals \<open>NeedsRebalance\<close> or returns a rank of at most ten characters that lies
  strictly between the two bounds in the lexicographic order.
\<close>

theorem rankBetween_strictly_between:
  assumes "valid_rank lower" and "valid_rank upper" and "lower < upper"
  shows "rankBetween lower upper = NeedsRebalance
       \<or> (\<exists>r. rankBetween lower upper = Rank r \<and> lower < r \<and> r < upper \<and> length r \<le> 10)"
proof (cases "midpoint 10 lower upper")
  case None
  then show ?thesis by (simp add: rankBetween_def)
next
  case (Some r)
  from midpoint_above_lower [OF Some] midpoint_below_upper [OF assms Some]
    midpoint_length [OF Some] Some
  show ?thesis by (simp add: rankBetween_def)
qed

theorem rankBetween_strictly_between_witness:
  "valid_rank ''n'' \<and> valid_rank ''t'' \<and> ''n'' < ''t''
   \<and> rankBetween ''n'' ''t'' = Rank ''q'' \<and> ''n'' < ''q'' \<and> ''q'' < ''t''"
proof -
  have v: "valid_rank ''n''" "valid_rank ''t''" and lt: "''n'' < ''t''"
    by (simp_all add: valid_rank_def)
  have val: "rankBetween ''n'' ''t'' = Rank ''q''"
    by code_simp
  from rankBetween_strictly_between [OF v lt] val v lt
  show ?thesis by simp
qed

text \<open>The bounds \<open>aaa\<close> and \<open>aac\<close> do not make \<open>rankBetween\<close> signal
  \<open>NeedsRebalance\<close>.\<close>

theorem rankBetween_aaa_aac_counterexample:
  "rankBetween ''aaa'' ''aac'' \<noteq> NeedsRebalance"
  by code_simp

text \<open>
  C2, as the model has it. Between \<open>aaa\<close> and \<open>aac\<close> the third characters leave the gap
  \<open>b\<close>, so \<open>rankBetween\<close> returns \<open>aab\<close>, which lies strictly between the two, and no
  rebalance takes place.
\<close>

theorem rankBetween_aaa_aac:
  "rankBetween ''aaa'' ''aac'' = Rank ''aab'' \<and> ''aaa'' < ''aab'' \<and> ''aab'' < ''aac''"
  by code_simp

section \<open>What a successful move changes\<close>

lemma spread_three:
  "spread c \<lparr>id_p = None, title_p = None, description_p = None, position_p = Some p,
             list_id_p = Some l, version_p = Some v, created_at_p = None\<rparr>
   = c\<lparr>position := p, version := v, list_id := l\<rparr>"
  by (simp add: spread_def)

text \<open>
  C5. A successful \<open>move_card\<close> returns and stores the row with its id, title,
  description and creation time as they were, the list and the position as requested
  and the version one higher. \<open>onSuccess\<close> keeps the board's own fields, the
  number of lists and every list's own fields; in every list the cards are those of
  before, with \<open>position\<close>, \<open>version\<close> and \<open>list_id\<close> replaced in the cards whose id is
  the updated card's and every other card as it was.
\<close>

theorem move_changes_only_list_position_version:
  "(\<forall>db cid tgt pos v c db'. move_card db cid tgt pos v = (Success c, db') \<longrightarrow>
      (\<exists>row. db cid = Some row
         \<and> id_c c = id_c row \<and> title c = title row \<and> description c = description row
         \<and> created_at c = created_at row
         \<and> list_id c = tgt \<and> position c = pos \<and> version c = version row + 1
         \<and> db' cid = Some c))
   \<and> (\<forall>updatedCard s b. board s = Some b \<longrightarrow>
        (\<exists>b'. board (onSuccess updatedCard s) = Some b'
           \<and> b'\<lparr>lists := []\<rparr> = b\<lparr>lists := []\<rparr>
           \<and> length (lists b') = length (lists b)
           \<and> (\<forall>i < length (lists b).
                 (lists b' ! i)\<lparr>cards := []\<rparr> = (lists b ! i)\<lparr>cards := []\<rparr>
               \<and> mset (cards (lists b' ! i))
                   = image_mset
                       (\<lambda>c. if id_c c = id_c updatedCard
                            then c\<lparr>position := position updatedCard,
                                   version := version updatedCard,
                                   list_id := list_id updatedCard\<rparr>
                            else c)
                       (mset (cards (lists b ! i))))))
   \<and> (\<forall>updatedCard s. board s = None \<longrightarrow> onSuccess updatedCard s = s)"
proof (intro conjI allI impI)
  fix db cid tgt pos v c db'
  assume "move_card db cid tgt pos v = (Success c, db')"
  then show "\<exists>row. db cid = Some row
         \<and> id_c c = id_c row \<and> title c = title row \<and> description c = description row
         \<and> created_at c = created_at row
         \<and> list_id c = tgt \<and> position c = pos \<and> version c = version row + 1
         \<and> db' cid = Some c"
    by (auto simp: move_card_def Let_def split: option.splits if_splits)
next
  fix updatedCard :: Card and s :: BoardState and b :: Board
  assume b: "board s = Some b"
  define upd where "upd = (\<lambda>c::Card. if id_c c = id_c updatedCard
                            then c\<lparr>position := position updatedCard,
                                   version := version updatedCard,
                                   list_id := list_id updatedCard\<rparr>
                            else c)"
  define b' where "b' = b\<lparr>lists := map (\<lambda>l. l\<lparr>cards := sortCards (map upd (cards l))\<rparr>) (lists b)\<rparr>"
  have run: "board (onSuccess updatedCard s) = Some b'"
    using b
    by (simp add: onSuccess_def updateCardAfterMove_def spread_three b'_def upd_def
        cong: if_cong)
  have frame: "b'\<lparr>lists := []\<rparr> = b\<lparr>lists := []\<rparr>"
    by (simp add: b'_def)
  have len: "length (lists b') = length (lists b)"
    by (simp add: b'_def)
  have each: "(lists b' ! i)\<lparr>cards := []\<rparr> = (lists b ! i)\<lparr>cards := []\<rparr>
               \<and> mset (cards (lists b' ! i)) = image_mset upd (mset (cards (lists b ! i)))"
    if "i < length (lists b)" for i
    using that by (simp add: b'_def sortCards_def)
  from run frame len each
  show "\<exists>b'. board (onSuccess updatedCard s) = Some b'
           \<and> b'\<lparr>lists := []\<rparr> = b\<lparr>lists := []\<rparr>
           \<and> length (lists b') = length (lists b)
           \<and> (\<forall>i < length (lists b).
                 (lists b' ! i)\<lparr>cards := []\<rparr> = (lists b ! i)\<lparr>cards := []\<rparr>
               \<and> mset (cards (lists b' ! i))
                   = image_mset
                       (\<lambda>c. if id_c c = id_c updatedCard
                            then c\<lparr>position := position updatedCard,
                                   version := version updatedCard,
                                   list_id := list_id updatedCard\<rparr>
                            else c)
                       (mset (cards (lists b ! i))))"
    unfolding upd_def by blast
next
  fix updatedCard :: Card and s :: BoardState
  assume "board s = None"
  then show "onSuccess updatedCard s = s"
    by (simp add: onSuccess_def updateCardAfterMove_def)
qed

theorem move_changes_only_list_position_version_witness:
  "id_c (card_A\<lparr>list_id := 20, position := ''g'', version := 4\<rparr>) = id_c card_A
   \<and> (\<exists>b'. board (onSuccess (card_A\<lparr>list_id := 20, position := ''g'', version := 4\<rparr>)
                     example_state) = Some b'
          \<and> length (lists b') = length (lists example_board)
          \<and> mset (cards (lists b' ! 1)) = mset (cards (lists example_board ! 1)))"
proof -
  have ok: "move_card [1 \<mapsto> card_A] 1 20 ''g'' 3
     = (Success (card_A\<lparr>list_id := 20, position := ''g'', version := 4\<rparr>),
        [1 \<mapsto> card_A\<lparr>list_id := 20, position := ''g'', version := 4\<rparr>])"
    by (simp add: move_card_def card_A_def Let_def)
  have b: "board example_state = Some example_board"
    by (simp add: example_state_def)
  note t = move_changes_only_list_position_version
  from t [THEN conjunct1, rule_format, OF ok]
  have first: "id_c (card_A\<lparr>list_id := 20, position := ''g'', version := 4\<rparr>) = id_c card_A"
    by auto
  from t [THEN conjunct2, THEN conjunct1, rule_format, OF b,
      of "card_A\<lparr>list_id := 20, position := ''g'', version := 4\<rparr>"]
  obtain b' where b': "board (onSuccess (card_A\<lparr>list_id := 20, position := ''g'', version := 4\<rparr>)
                     example_state) = Some b'"
    and len: "length (lists b') = length (lists example_board)"
    and each: "\<forall>i < length (lists example_board).
                 mset (cards (lists b' ! i))
                   = image_mset
                       (\<lambda>c. if id_c c = id_c (card_A\<lparr>list_id := 20, position := ''g'', version := 4\<rparr>)
                            then c\<lparr>position := position (card_A\<lparr>list_id := 20, position := ''g'', version := 4\<rparr>),
                                   version := version (card_A\<lparr>list_id := 20, position := ''g'', version := 4\<rparr>),
                                   list_id := list_id (card_A\<lparr>list_id := 20, position := ''g'', version := 4\<rparr>)\<rparr>
                            else c)
                       (mset (cards (lists example_board ! i)))"
    by blast
  have "(1::nat) < length (lists example_board)"
    by (simp add: example_defs)
  with each have "mset (cards (lists b' ! 1)) = mset (cards (lists example_board ! 1))"
    by (simp add: example_defs)
  with first b' len show ?thesis by blast
qed

section \<open>Order of the cards in the store\<close>

lemma sorted_sortCards: "sorted (map position (sortCards cs))"
  by (simp add: sortCards_def sorted_sort_key)

text \<open>
  C6, as the store has it. After \<open>setBoard\<close>, \<open>updateCard\<close> and \<open>updateCardAfterMove\<close>
  every list of the stored board is in ascending order of \<open>position\<close>; \<open>addCard\<close> and
  \<open>removeCard\<close> keep every list in that order when every list was in it before.
\<close>

theorem store_operations_sorted:
  "board_sorted (setBoard b s)
   \<and> board_sorted (updateCard cardId updates s)
   \<and> board_sorted (updateCardAfterMove cardId updates s)
   \<and> (board_sorted s \<longrightarrow> board_sorted (addCard listId c s))
   \<and> (board_sorted s \<longrightarrow> board_sorted (removeCard cardId listId s))"
proof (intro conjI impI)
  show "board_sorted (setBoard b s)"
    by (simp add: board_sorted_def setBoard_def list_all_iff sorted_sortCards)
  show "board_sorted (updateCard cardId updates s)"
    by (simp add: board_sorted_def updateCard_def list_all_iff sorted_sortCards
        split: option.splits)
  show "board_sorted (updateCardAfterMove cardId updates s)"
    by (simp add: board_sorted_def updateCardAfterMove_def list_all_iff sorted_sortCards
        split: option.splits)
  show "board_sorted (addCard listId c s)" if "board_sorted s"
    using that
    by (auto simp: board_sorted_def addCard_def list_all_iff sorted_sortCards
        split: option.splits)
  show "board_sorted (removeCard cardId listId s)" if "board_sorted s"
    using that
    by (auto simp: board_sorted_def removeCard_def list_all_iff sorted_filter
        split: option.splits)
qed

text \<open>\<open>moveCardOptimistic\<close> puts the card at the index asked for and keeps its
  position: moving the card at rank \<open>a\<close> to the end of a sorted list leaves the list
  out of order, and a later \<open>addCard\<close> or \<open>removeCard\<close> on the other list does not
  put it back in order.\<close>

theorem moveCardOptimistic_unsorted_counterexample:
  "board_sorted (setBoard example_board \<lparr>board = None\<rparr>)
   \<and> \<not> board_sorted
         (fst (moveCardOptimistic 1 10 10 2 (setBoard example_board \<lparr>board = None\<rparr>)))
   \<and> \<not> board_sorted
         (addCard 20 (card_D\<lparr>id_c := 5, position := ''t''\<rparr>)
            (fst (moveCardOptimistic 1 10 10 2 (setBoard example_board \<lparr>board = None\<rparr>))))
   \<and> \<not> board_sorted
         (removeCard 4 20
            (fst (moveCardOptimistic 1 10 10 2 (setBoard example_board \<lparr>board = None\<rparr>))))"
  by (simp add: board_sorted_def setBoard_def sortCards_def moveCardOptimistic_def
      addCard_def removeCard_def example_defs splice_remove_def splice_insert_def Let_def)

theorem store_operations_sorted_witness:
  "board_sorted example_state
   \<and> board_sorted (addCard 10 (card_D\<lparr>position := ''aa''\<rparr>) example_state)
   \<and> board_sorted (removeCard 2 10 example_state)"
proof -
  have "board_sorted example_state"
    by (simp add: board_sorted_def example_defs)
  with store_operations_sorted [of example_board example_state 2
      "\<lparr>id_p = None, title_p = None, description_p = None, position_p = None,
        list_id_p = None, version_p = None, created_at_p = None\<rparr>" 10
      "card_D\<lparr>position := ''aa''\<rparr>"]
  show ?thesis by blast
qed

section \<open>Neighbours of the drop position\<close>

lemma neighbours_Inr:
  assumes "neighbours cwa i = Inr (b, a)" and "i \<le> int (length cwa)"
  shows "0 \<le> i"
    and "b = (if i = 0 then None else Some (id_c (cwa ! nat (i - 1))))"
    and "a = (if i = int (length cwa) then None else Some (id_c (cwa ! nat i)))"
  using assms
  by (auto simp: neighbours_def at_index_def Let_def split: if_splits option.splits)

lemma handleDragEnd_Some:
  assumes "handleDragEnd event (Some brd) = Inr (Some v)"
  obtains ov ac tg where "over event = Some ov" and "active_card event = Some ac"
    and "drop_target ov ac brd = Some (targetListId_v v, newIndex_v v)"
    and "find (\<lambda>l. id_l l = targetListId_v v) (lists brd) = Some tg"
    and "neighbours (filter (\<lambda>c. id_c c \<noteq> id_c ac) (cards tg)) (newIndex_v v)
         = Inr (beforeCardId_v v, afterCardId_v v)"
    and "cardId_v v = id_c ac"
  using assms
  by (auto simp: handleDragEnd_def Let_def split: option.splits sum.splits prod.splits)

lemma length_filter_distinct:
  "distinct (map f xs) \<Longrightarrow> length xs \<le> Suc (length (filter (\<lambda>c. f c \<noteq> a) xs))"
proof (induction xs)
  case Nil
  show ?case by simp
next
  case (Cons x xs)
  show ?case
  proof (cases "f x = a")
    case True
    with Cons.prems have "\<forall>c\<in>set xs. f c \<noteq> a" by (auto simp: image_iff)
    then have "filter (\<lambda>c. f c \<noteq> a) xs = xs" by (simp add: filter_id_conv)
    with True show ?thesis by simp
  next
    case False
    with Cons show ?thesis by simp
  qed
qed

lemma findIndex_le: "findIndex P xs + 1 \<le> int (length xs)"
  by (induction xs) (auto simp: Let_def)

lemma drop_target_in_range:
  assumes "drop_target ov ac brd = Some (t, i)"
    and "find (\<lambda>l. id_l l = t) (lists brd) = Some tg"
    and "distinct (map id_c (cards tg))"
  shows "i \<le> int (length (filter (\<lambda>c. id_c c \<noteq> id_c ac) (cards tg)))"
proof (cases ov)
  case (OverCard oc)
  with assms(1,2) have i: "i = findIndex (\<lambda>c. id_c c = id_c oc) (cards tg)"
    by (auto simp: drop_target_def Let_def split: option.splits if_splits)
  have "i + 1 \<le> int (length (cards tg))"
    unfolding i by (rule findIndex_le)
  moreover have "length (cards tg) \<le> Suc (length (filter (\<lambda>c. id_c c \<noteq> id_c ac) (cards tg)))"
    by (rule length_filter_distinct [OF assms(3)])
  ultimately show ?thesis by linarith
next
  case (OverList l)
  with assms(1,2) show ?thesis
    by (auto simp: drop_target_def split: option.splits)
next
  case OverOther
  with assms(1) show ?thesis by (simp add: drop_target_def)
qed

lemma neighbours_in_range:
  assumes "0 \<le> i" and "i \<le> int (length cwa)"
  shows "neighbours cwa i
         = Inr (if i = 0 then None else Some (id_c (cwa ! nat (i - 1))),
                if i = int (length cwa) then None else Some (id_c (cwa ! nat i)))"
proof (cases "i = 0")
  case True
  then show ?thesis by (simp add: neighbours_def)
next
  case False
  show ?thesis
  proof (cases "i = int (length cwa)")
    case True
    with False show ?thesis by (simp add: neighbours_def)
  next
    case less: False
    with assms False have "0 \<le> i - 1" "i - 1 < int (length cwa)" "i < int (length cwa)"
      by simp_all
    with assms False less show ?thesis
      by (simp add: neighbours_def at_index_def)
  qed
qed

lemma handleDragEnd_issued:
  assumes run: "handleDragEnd event (Some brd) = Inr (Some v)"
    and tg: "find (\<lambda>l. id_l l = targetListId_v v) (lists brd) = Some targetList"
    and ids: "distinct (map id_c (cards targetList))"
    and cwa: "cwa = filter (\<lambda>c. id_c c \<noteq> cardId_v v) (cards targetList)"
  shows "0 \<le> newIndex_v v \<and> newIndex_v v \<le> int (length cwa)
       \<and> beforeCardId_v v
           = (if newIndex_v v = 0 then None else Some (id_c (cwa ! nat (newIndex_v v - 1))))
       \<and> afterCardId_v v
           = (if newIndex_v v = int (length cwa) then None
              else Some (id_c (cwa ! nat (newIndex_v v))))
       \<and> (cwa = [] \<longrightarrow> beforeCardId_v v = None \<and> afterCardId_v v = None)"
proof -
  from run obtain ov ac tg' where ac: "active_card event = Some ac"
    and dt: "drop_target ov ac brd = Some (targetListId_v v, newIndex_v v)"
    and tg': "find (\<lambda>l. id_l l = targetListId_v v) (lists brd) = Some tg'"
    and nb: "neighbours (filter (\<lambda>c. id_c c \<noteq> id_c ac) (cards tg')) (newIndex_v v)
             = Inr (beforeCardId_v v, afterCardId_v v)"
    and cid: "cardId_v v = id_c ac"
    by (rule handleDragEnd_Some)
  from tg tg' have same: "tg' = targetList" by simp
  have le: "newIndex_v v \<le> int (length cwa)"
    using drop_target_in_range [OF dt tg ids] by (simp add: cwa cid)
  from nb have nb': "neighbours cwa (newIndex_v v) = Inr (beforeCardId_v v, afterCardId_v v)"
    by (simp add: same cwa cid)
  note n = neighbours_Inr [OF nb' le]
  have empty: "cwa = [] \<longrightarrow> beforeCardId_v v = None \<and> afterCardId_v v = None"
    using n le by auto
  from n le empty show ?thesis by blast
qed

lemma handleDragEnd_issues_move:
  assumes ov: "over event = Some ov"
    and ac: "active_card event = Some ac"
    and dt: "drop_target ov ac brd = Some (t, i)"
    and tg: "find (\<lambda>l. id_l l = t) (lists brd) = Some targetList"
    and lo: "0 \<le> i"
    and hi: "i \<le> int (length (filter (\<lambda>c. id_c c \<noteq> id_c ac) (cards targetList)))"
  shows "handleDragEnd event (Some brd)
         = Inr (Some \<lparr> cardId_v = id_c ac, sourceListId_v = list_id ac, targetListId_v = t,
                       newIndex_v = i, version_v = version ac,
                       beforeCardId_v =
                         (if i = 0 then None
                          else Some (id_c (filter (\<lambda>c. id_c c \<noteq> id_c ac) (cards targetList)
                                           ! nat (i - 1)))),
                       afterCardId_v =
                         (if i = int (length (filter (\<lambda>c. id_c c \<noteq> id_c ac)
                                                 (cards targetList)))
                          then None
                          else Some (id_c (filter (\<lambda>c. id_c c \<noteq> id_c ac) (cards targetList)
                                           ! nat i))) \<rparr>)"
  using ov ac dt tg
  by (simp add: handleDragEnd_def Let_def neighbours_in_range [OF lo hi])

text \<open>
  C7. Take a drop on the area of a list, or on a card that is found in its list, whose
  cards have distinct ids, unless it is the dragged card's own place. Let \<open>i\<close> be the
  index the handler computes: the number of remaining cards for a drop on the list, the
  index of the card dropped on for a drop on a card. Then \<open>i\<close> lies between 0 and the
  number of cards of the target list without the dragged one, and \<open>handleDragEnd\<close> does
  call \<open>moveCard\<close>, with the dragged card's id, list and version, with \<open>i\<close>, with
  \<open>beforeCardId\<close> the id of the card at \<open>i - 1\<close> among the remaining cards, absent
  exactly when \<open>i = 0\<close>, and with \<open>afterCardId\<close> the id of the card at \<open>i\<close>, absent exactly
  when \<open>i\<close> is their number; for an empty target list both are absent. Conversely, every
  call of \<open>moveCard\<close> for a target list with distinct ids has neighbours of that form.
\<close>

theorem handleDragEnd_neighbours:
  assumes ac: "active_card event = Some ac"
    and tg: "find (\<lambda>l. id_l l = t) (lists brd) = Some targetList"
    and cwa: "cwa = filter (\<lambda>c. id_c c \<noteq> id_c ac) (cards targetList)"
  shows "(((over event = Some (OverList t) \<and> i = int (length cwa))
           \<or> (\<exists>overCard. over event = Some (OverCard overCard) \<and> list_id overCard = t
                 \<and> distinct (map id_c (cards targetList))
                 \<and> i = findIndex (\<lambda>c. id_c c = id_c overCard) (cards targetList)
                 \<and> i \<noteq> - 1
                 \<and> \<not> (list_id ac = t
                       \<and> findIndex (\<lambda>c. id_c c = id_c ac) (cards targetList) = i)))
          \<longrightarrow> 0 \<le> i \<and> i \<le> int (length cwa)
              \<and> handleDragEnd event (Some brd)
                  = Inr (Some \<lparr> cardId_v = id_c ac, sourceListId_v = list_id ac,
                                targetListId_v = t, newIndex_v = i, version_v = version ac,
                                beforeCardId_v =
                                  (if i = 0 then None else Some (id_c (cwa ! nat (i - 1)))),
                                afterCardId_v =
                                  (if i = int (length cwa) then None
                                   else Some (id_c (cwa ! nat i))) \<rparr>)
              \<and> (cwa = [] \<longrightarrow>
                    handleDragEnd event (Some brd)
                    = Inr (Some \<lparr> cardId_v = id_c ac, sourceListId_v = list_id ac,
                                  targetListId_v = t, newIndex_v = 0, version_v = version ac,
                                  beforeCardId_v = None, afterCardId_v = None \<rparr>)))
       \<and> (\<forall>v. handleDragEnd event (Some brd) = Inr (Some v) \<and> targetListId_v v = t
                \<and> distinct (map id_c (cards targetList))
             \<longrightarrow> cardId_v v = id_c ac
                 \<and> 0 \<le> newIndex_v v \<and> newIndex_v v \<le> int (length cwa)
                 \<and> beforeCardId_v v
                     = (if newIndex_v v = 0 then None
                        else Some (id_c (cwa ! nat (newIndex_v v - 1))))
                 \<and> afterCardId_v v
                     = (if newIndex_v v = int (length cwa) then None
                        else Some (id_c (cwa ! nat (newIndex_v v))))
                 \<and> (cwa = [] \<longrightarrow> beforeCardId_v v = None \<and> afterCardId_v v = None))"
proof (intro conjI impI allI)
  assume drop: "(over event = Some (OverList t) \<and> i = int (length cwa))
           \<or> (\<exists>overCard. over event = Some (OverCard overCard) \<and> list_id overCard = t
                 \<and> distinct (map id_c (cards targetList))
                 \<and> i = findIndex (\<lambda>c. id_c c = id_c overCard) (cards targetList)
                 \<and> i \<noteq> - 1
                 \<and> \<not> (list_id ac = t
                       \<and> findIndex (\<lambda>c. id_c c = id_c ac) (cards targetList) = i))"
  have facts: "\<exists>ov. over event = Some ov \<and> drop_target ov ac brd = Some (t, i)
                 \<and> 0 \<le> i \<and> i \<le> int (length cwa)"
    using drop
  proof
    assume l: "over event = Some (OverList t) \<and> i = int (length cwa)"
    have "drop_target (OverList t) ac brd = Some (t, i)"
      using l tg by (simp add: drop_target_def cwa)
    with l show ?thesis by simp
  next
    assume "\<exists>overCard. over event = Some (OverCard overCard) \<and> list_id overCard = t
                 \<and> distinct (map id_c (cards targetList))
                 \<and> i = findIndex (\<lambda>c. id_c c = id_c overCard) (cards targetList)
                 \<and> i \<noteq> - 1
                 \<and> \<not> (list_id ac = t
                       \<and> findIndex (\<lambda>c. id_c c = id_c ac) (cards targetList) = i)"
    then obtain oc where oc: "over event = Some (OverCard oc)" "list_id oc = t"
      and ids: "distinct (map id_c (cards targetList))"
      and i: "i = findIndex (\<lambda>c. id_c c = id_c oc) (cards targetList)"
      and found: "i \<noteq> - 1"
      and moved: "\<not> (list_id ac = t
                      \<and> findIndex (\<lambda>c. id_c c = id_c ac) (cards targetList) = i)"
      by blast
    have dt: "drop_target (OverCard oc) ac brd = Some (t, i)"
      using oc(2) tg i moved by (auto simp: drop_target_def Let_def)
    have lo: "0 \<le> i"
      using findIndex_found [of "\<lambda>c. id_c c = id_c oc" "cards targetList"] found i by simp
    have hi: "i \<le> int (length cwa)"
      using drop_target_in_range [OF dt tg ids] by (simp add: cwa)
    from oc(1) dt lo hi show ?thesis by simp
  qed
  then obtain ov where ov: "over event = Some ov"
    and dt: "drop_target ov ac brd = Some (t, i)"
    and lo: "0 \<le> i" and hi: "i \<le> int (length cwa)"
    by blast
  show "0 \<le> i" by (rule lo)
  show "i \<le> int (length cwa)" by (rule hi)
  show run: "handleDragEnd event (Some brd)
        = Inr (Some \<lparr> cardId_v = id_c ac, sourceListId_v = list_id ac,
                      targetListId_v = t, newIndex_v = i, version_v = version ac,
                      beforeCardId_v =
                        (if i = 0 then None else Some (id_c (cwa ! nat (i - 1)))),
                      afterCardId_v =
                        (if i = int (length cwa) then None
                         else Some (id_c (cwa ! nat i))) \<rparr>)"
    using handleDragEnd_issues_move [OF ov ac dt tg lo] hi by (simp add: cwa)
  show "handleDragEnd event (Some brd)
        = Inr (Some \<lparr> cardId_v = id_c ac, sourceListId_v = list_id ac,
                      targetListId_v = t, newIndex_v = 0, version_v = version ac,
                      beforeCardId_v = None, afterCardId_v = None \<rparr>)"
    if "cwa = []"
    using run lo hi that by simp
next
  fix v
  assume h: "handleDragEnd event (Some brd) = Inr (Some v) \<and> targetListId_v v = t
                \<and> distinct (map id_c (cards targetList))"
  from handleDragEnd_sends_active [of event "Some brd" v] h ac
  have cid: "cardId_v v = id_c ac" by auto
  from h tg have tg': "find (\<lambda>l. id_l l = targetListId_v v) (lists brd) = Some targetList"
    by simp
  from cwa cid have cwa': "cwa = filter (\<lambda>c. id_c c \<noteq> cardId_v v) (cards targetList)"
    by simp
  from h have run: "handleDragEnd event (Some brd) = Inr (Some v)"
    and ids: "distinct (map id_c (cards targetList))" by simp_all
  note old = handleDragEnd_issued [OF run tg' ids cwa']
  show "cardId_v v = id_c ac" by (rule cid)
  show "0 \<le> newIndex_v v" using old by blast
  show "newIndex_v v \<le> int (length cwa)" using old by blast
  show "beforeCardId_v v
         = (if newIndex_v v = 0 then None else Some (id_c (cwa ! nat (newIndex_v v - 1))))"
    using old by blast
  show "afterCardId_v v
         = (if newIndex_v v = int (length cwa) then None
            else Some (id_c (cwa ! nat (newIndex_v v))))"
    using old by blast
  show "beforeCardId_v v = None" if "cwa = []" using old that by blast
  show "afterCardId_v v = None" if "cwa = []" using old that by blast
qed

theorem handleDragEnd_neighbours_witness:
  "handleDragEnd \<lparr>active_card = Some card_C, over = Some (OverCard card_A)\<rparr>
     (Some example_board)
     = Inr (Some \<lparr>cardId_v = 3, sourceListId_v = 10, targetListId_v = 10, newIndex_v = 0,
                  version_v = 1, beforeCardId_v = None, afterCardId_v = Some 1\<rparr>)
   \<and> handleDragEnd \<lparr>active_card = Some card_D, over = Some (OverCard card_B)\<rparr>
     (Some example_board)
     = Inr (Some \<lparr>cardId_v = 4, sourceListId_v = 20, targetListId_v = 10, newIndex_v = 1,
                  version_v = 1, beforeCardId_v = Some 1, afterCardId_v = Some 2\<rparr>)
   \<and> handleDragEnd \<lparr>active_card = Some card_D, over = Some (OverList 10)\<rparr>
     (Some example_board)
     = Inr (Some \<lparr>cardId_v = 4, sourceListId_v = 20, targetListId_v = 10, newIndex_v = 3,
                  version_v = 1, beforeCardId_v = Some 3, afterCardId_v = None\<rparr>)
   \<and> handleDragEnd \<lparr>active_card = Some card_D, over = Some (OverList 30)\<rparr>
     (Some board_with_empty)
     = Inr (Some \<lparr>cardId_v = 4, sourceListId_v = 20, targetListId_v = 30, newIndex_v = 0,
                  version_v = 1, beforeCardId_v = None, afterCardId_v = None\<rparr>)"
proof -
  have todo: "find (\<lambda>l. id_l l = 10) (lists example_board) = Some list_todo"
    by (simp add: example_defs)
  have later: "find (\<lambda>l. id_l l = 30) (lists board_with_empty) = Some list_empty"
    by (simp add: example_defs)
  have head_cwa: "[card_A, card_B] = filter (\<lambda>c. id_c c \<noteq> id_c card_C) (cards list_todo)"
    by (simp add: example_defs)
  have all_cwa: "[card_A, card_B, card_C]
                 = filter (\<lambda>c. id_c c \<noteq> id_c card_D) (cards list_todo)"
    by (simp add: example_defs)
  have no_cwa: "[] = filter (\<lambda>c. id_c c \<noteq> id_c card_D) (cards list_empty)"
    by (simp add: example_defs)
  have head_drop:
    "(over \<lparr>active_card = Some card_C, over = Some (OverCard card_A)\<rparr> = Some (OverList 10)
        \<and> (0::int) = int (length [card_A, card_B]))
     \<or> (\<exists>overCard. over \<lparr>active_card = Some card_C, over = Some (OverCard card_A)\<rparr>
                       = Some (OverCard overCard)
           \<and> list_id overCard = 10
           \<and> distinct (map id_c (cards list_todo))
           \<and> (0::int) = findIndex (\<lambda>c. id_c c = id_c overCard) (cards list_todo)
           \<and> (0::int) \<noteq> - 1
           \<and> \<not> (list_id card_C = 10
                 \<and> findIndex (\<lambda>c. id_c c = id_c card_C) (cards list_todo) = 0))"
    by (rule disjI2, rule exI [of _ card_A]) (simp add: example_defs)
  have inner_drop:
    "(over \<lparr>active_card = Some card_D, over = Some (OverCard card_B)\<rparr> = Some (OverList 10)
        \<and> (1::int) = int (length [card_A, card_B, card_C]))
     \<or> (\<exists>overCard. over \<lparr>active_card = Some card_D, over = Some (OverCard card_B)\<rparr>
                       = Some (OverCard overCard)
           \<and> list_id overCard = 10
           \<and> distinct (map id_c (cards list_todo))
           \<and> (1::int) = findIndex (\<lambda>c. id_c c = id_c overCard) (cards list_todo)
           \<and> (1::int) \<noteq> - 1
           \<and> \<not> (list_id card_D = 10
                 \<and> findIndex (\<lambda>c. id_c c = id_c card_D) (cards list_todo) = 1))"
    by (rule disjI2, rule exI [of _ card_B]) (simp add: example_defs)
  have end_drop:
    "(over \<lparr>active_card = Some card_D, over = Some (OverList 10)\<rparr> = Some (OverList 10)
        \<and> (3::int) = int (length [card_A, card_B, card_C]))
     \<or> (\<exists>overCard. over \<lparr>active_card = Some card_D, over = Some (OverList 10)\<rparr>
                       = Some (OverCard overCard)
           \<and> list_id overCard = 10
           \<and> distinct (map id_c (cards list_todo))
           \<and> (3::int) = findIndex (\<lambda>c. id_c c = id_c overCard) (cards list_todo)
           \<and> (3::int) \<noteq> - 1
           \<and> \<not> (list_id card_D = 10
                 \<and> findIndex (\<lambda>c. id_c c = id_c card_D) (cards list_todo) = 3))"
    by (rule disjI1) simp
  have empty_drop:
    "(over \<lparr>active_card = Some card_D, over = Some (OverList 30)\<rparr> = Some (OverList 30)
        \<and> (0::int) = int (length ([] :: Card list)))
     \<or> (\<exists>overCard. over \<lparr>active_card = Some card_D, over = Some (OverList 30)\<rparr>
                       = Some (OverCard overCard)
           \<and> list_id overCard = 30
           \<and> distinct (map id_c (cards list_empty))
           \<and> (0::int) = findIndex (\<lambda>c. id_c c = id_c overCard) (cards list_empty)
           \<and> (0::int) \<noteq> - 1
           \<and> \<not> (list_id card_D = 30
                 \<and> findIndex (\<lambda>c. id_c c = id_c card_D) (cards list_empty) = 0))"
    by (rule disjI1) simp
  have first: "handleDragEnd \<lparr>active_card = Some card_C, over = Some (OverCard card_A)\<rparr>
     (Some example_board)
     = Inr (Some \<lparr>cardId_v = 3, sourceListId_v = 10, targetListId_v = 10, newIndex_v = 0,
                  version_v = 1, beforeCardId_v = None, afterCardId_v = Some 1\<rparr>)"
    using handleDragEnd_neighbours
      [where event = "\<lparr>active_card = Some card_C, over = Some (OverCard card_A)\<rparr>"
         and ac = card_C and t = 10 and brd = example_board and targetList = list_todo
         and cwa = "[card_A, card_B]" and i = 0,
       OF _ todo head_cwa, THEN conjunct1, rule_format, OF _ head_drop]
    by (simp add: card_A_def card_B_def card_C_def)
  have second: "handleDragEnd \<lparr>active_card = Some card_D, over = Some (OverCard card_B)\<rparr>
     (Some example_board)
     = Inr (Some \<lparr>cardId_v = 4, sourceListId_v = 20, targetListId_v = 10, newIndex_v = 1,
                  version_v = 1, beforeCardId_v = Some 1, afterCardId_v = Some 2\<rparr>)"
    using handleDragEnd_neighbours
      [where event = "\<lparr>active_card = Some card_D, over = Some (OverCard card_B)\<rparr>"
         and ac = card_D and t = 10 and brd = example_board and targetList = list_todo
         and cwa = "[card_A, card_B, card_C]" and i = 1,
       OF _ todo all_cwa, THEN conjunct1, rule_format, OF _ inner_drop]
    by (simp add: card_A_def card_B_def card_C_def card_D_def)
  have third: "handleDragEnd \<lparr>active_card = Some card_D, over = Some (OverList 10)\<rparr>
     (Some example_board)
     = Inr (Some \<lparr>cardId_v = 4, sourceListId_v = 20, targetListId_v = 10, newIndex_v = 3,
                  version_v = 1, beforeCardId_v = Some 3, afterCardId_v = None\<rparr>)"
    using handleDragEnd_neighbours
      [where event = "\<lparr>active_card = Some card_D, over = Some (OverList 10)\<rparr>"
         and ac = card_D and t = 10 and brd = example_board and targetList = list_todo
         and cwa = "[card_A, card_B, card_C]" and i = 3,
       OF _ todo all_cwa, THEN conjunct1, rule_format, OF _ end_drop]
    by (simp add: card_A_def card_B_def card_C_def card_D_def)
  have fourth: "handleDragEnd \<lparr>active_card = Some card_D, over = Some (OverList 30)\<rparr>
     (Some board_with_empty)
     = Inr (Some \<lparr>cardId_v = 4, sourceListId_v = 20, targetListId_v = 30, newIndex_v = 0,
                  version_v = 1, beforeCardId_v = None, afterCardId_v = None\<rparr>)"
    using handleDragEnd_neighbours
      [where event = "\<lparr>active_card = Some card_D, over = Some (OverList 30)\<rparr>"
         and ac = card_D and t = 30 and brd = board_with_empty and targetList = list_empty
         and cwa = "[]" and i = 0,
       OF _ later no_cwa, THEN conjunct1, rule_format, OF _ empty_drop]
    by (simp add: card_D_def)
  from first second third fourth show ?thesis by blast
qed

end
